theory Spec2Isabelle
  imports Complex_Main "HOL-Library.Log_Nat"
begin

section \<open>The storyboard grid compositor\<close>

text \<open>
  A shallow embedding of \<^verbatim>\<open>src/storyboard/storyboard_image_node.py\<close>: the method
  \<^verbatim>\<open>create_storyboard_grid\<close>, which arranges a list of images in a grid on a canvas
  of a given size, and \<^verbatim>\<open>_parse_output_size\<close> with the line of \<^verbatim>\<open>process\<close> that
  calls it. Python exceptions are values of the type \<open>py_error\<close>; a function that can
  raise returns \<open>py_error + 'a\<close>, with \<open>Inl\<close> for the exception.
\<close>

subsection \<open>Exceptions\<close>

datatype py_error =
    ValueError string
  | ZeroDivisionError string

definition bind_exn :: "py_error + 'a \<Rightarrow> ('a \<Rightarrow> py_error + 'b) \<Rightarrow> py_error + 'b" where
  "bind_exn m f = (case m of Inl e \<Rightarrow> Inl e | Inr v \<Rightarrow> f v)"

subsection \<open>Python values for the dynamically typed argument\<close>

text \<open>
  \<^verbatim>\<open>columns\<close> is tested with \<^verbatim>\<open>isinstance(columns, int)\<close>, so the model keeps the
  dynamic type of the argument. \<^verbatim>\<open>bool\<close> is a subclass of \<^verbatim>\<open>int\<close> in Python:
  \<^verbatim>\<open>True\<close> counts as the integer 1 and \<^verbatim>\<open>False\<close> as 0.
\<close>

datatype py_value =
    PyInt int
  | PyBool bool
  | PyFloat rat
  | PyStr string
  | PyNone

fun isinstance_int :: "py_value \<Rightarrow> bool" where
  "isinstance_int (PyInt n) = True"
| "isinstance_int (PyBool b) = True"
| "isinstance_int v = False"

fun int_value :: "py_value \<Rightarrow> int" where
  "int_value (PyInt n) = n"
| "int_value (PyBool b) = (if b then 1 else 0)"
| "int_value v = 0"

text \<open>Lines 214 to 216: \<^verbatim>\<open>if not isinstance(columns, int) or columns < 1: columns = 3\<close>.\<close>

definition valid_columns :: "py_value \<Rightarrow> int" where
  "valid_columns columns =
     (if \<not> isinstance_int columns \<or> int_value columns < 1 then 3 else int_value columns)"

subsection \<open>The size selector\<close>

text \<open>
  \<^verbatim>\<open>_parse_output_size\<close> looks the selector up in a dictionary and returns \<^verbatim>\<open>None\<close>
  for a missing key.
\<close>

definition size_map :: "(string \<times> (int \<times> int)) list" where
  "size_map =
     [(''4k (3840x2160)'', (3840, 2160)),
      (''1920x1080'', (1920, 1080)),
      (''1440p (2560x1440)'', (2560, 1440)),
      (''720p (1280x720)'', (1280, 720))]"

definition parse_output_size :: "string \<Rightarrow> (int \<times> int) option" where
  "parse_output_size output_size = map_of size_map output_size"

text \<open>
  Line 160 of \<^verbatim>\<open>process\<close>: \<^verbatim>\<open>self._parse_output_size(output_image_size) or (1920, 1080)\<close>.
  A pair is truthy, so \<^verbatim>\<open>or\<close> takes the right operand exactly when the lookup
  returned \<^verbatim>\<open>None\<close>.
\<close>

definition process_target_size :: "string \<Rightarrow> int \<times> int" where
  "process_target_size output_image_size =
     (case parse_output_size output_image_size of
        Some target_size \<Rightarrow> target_size
      | None \<Rightarrow> (1920, 1080))"

subsection \<open>The background colour\<close>

text \<open>
  \<^verbatim>\<open>int(s, 16)\<close> on a string: optional white space around the literal, an optional
  sign, an optional prefix \<^verbatim>\<open>0x\<close> or \<^verbatim>\<open>0X\<close> (which may be followed by one
  underscore), then hexadecimal digits with single underscores between them. Anything
  else raises \<^verbatim>\<open>ValueError\<close>, here \<open>None\<close>. A \<open>char\<close> stands for a code point below
  256; of these, Python takes the six ASCII white-space characters, U+0085 and U+00A0
  as white space.
\<close>

definition is_space :: "char \<Rightarrow> bool" where
  "is_space c =
     (c \<in> set [CHR '' '', CHR 0x09, CHR 0x0A, CHR 0x0B, CHR 0x0C, CHR 0x0D, CHR 0x85, CHR 0xA0])"

definition digit_value :: "char \<Rightarrow> int option" where
  "digit_value c =
     (let n = of_char c :: nat in
      if 48 \<le> n \<and> n \<le> 57 then Some (int n - 48)
      else if 97 \<le> n \<and> n \<le> 102 then Some (int n - 87)
      else if 65 \<le> n \<and> n \<le> 70 then Some (int n - 55)
      else None)"

text \<open>
  The digit scan: \<open>prev_us\<close> records that the previous character was an underscore.
  The scan returns the value and the rest of the string, or \<open>None\<close> for a doubled or
  trailing underscore.
\<close>

fun scan_digits :: "int \<Rightarrow> bool \<Rightarrow> string \<Rightarrow> (int \<times> string) option" where
  "scan_digits acc prev_us [] = (if prev_us then None else Some (acc, []))"
| "scan_digits acc prev_us (c # cs) =
     (if c = CHR ''_'' then (if prev_us then None else scan_digits acc True cs)
      else case digit_value c of
             Some d \<Rightarrow> scan_digits (16 * acc + d) False cs
           | None \<Rightarrow> (if prev_us then None else Some (acc, c # cs)))"

definition skip_prefix :: "string \<Rightarrow> string" where
  "skip_prefix s =
     (case s of
        c0 # c1 # rest \<Rightarrow>
          (if c0 = CHR ''0'' \<and> (c1 = CHR ''x'' \<or> c1 = CHR ''X'')
           then (case rest of c2 # rest' \<Rightarrow> (if c2 = CHR ''_'' then rest' else rest) | [] \<Rightarrow> rest)
           else s)
      | _ \<Rightarrow> s)"

definition py_int16 :: "string \<Rightarrow> int option" where
  "py_int16 s =
     (let s1 = dropWhile is_space s;
          (sign, s2) = (case s1 of
                          c # cs \<Rightarrow> (if c = CHR ''+'' then (1, cs)
                                     else if c = CHR ''-'' then (- 1, cs) else (1, s1))
                        | [] \<Rightarrow> (1, s1));
          s3 = skip_prefix s2
      in case s3 of
           [] \<Rightarrow> None
         | c # cs \<Rightarrow>
             (if c = CHR ''_'' \<or> digit_value c = None then None
              else case scan_digits 0 False s3 of
                     None \<Rightarrow> None
                   | Some (v, rest) \<Rightarrow>
                       (if dropWhile is_space rest = [] then Some (sign * v) else None)))"

text \<open>
  Lines 200 to 212. The three slices \<^verbatim>\<open>bg_color[1:3]\<close>, \<^verbatim>\<open>bg_color[3:5]\<close> and
  \<^verbatim>\<open>bg_color[5:7]\<close> are parsed inside \<^verbatim>\<open>try\<close>; every exception gives black.
\<close>

type_synonym color = "int \<times> int \<times> int"

definition startswith_hash :: "string \<Rightarrow> bool" where
  "startswith_hash s = (case s of c # _ \<Rightarrow> c = CHR ''#'' | [] \<Rightarrow> False)"

definition slice :: "nat \<Rightarrow> nat \<Rightarrow> string \<Rightarrow> string" where
  "slice i j s = take (j - i) (drop i s)"

definition bg_color_tuple :: "string \<Rightarrow> color" where
  "bg_color_tuple bg_color =
     (if startswith_hash bg_color then
        (case py_int16 (slice 1 3 bg_color) of
           None \<Rightarrow> (0, 0, 0)
         | Some r \<Rightarrow>
            (case py_int16 (slice 3 5 bg_color) of
               None \<Rightarrow> (0, 0, 0)
             | Some g \<Rightarrow>
                (case py_int16 (slice 5 7 bg_color) of
                   None \<Rightarrow> (0, 0, 0)
                 | Some b \<Rightarrow> (r, g, b))))
      else (0, 0, 0))"


subsection \<open>Python arithmetic\<close>

text \<open>
  Python's \<^verbatim>\<open>//\<close> and \<^verbatim>\<open>%\<close> on integers round towards minus infinity, as
  \<open>div\<close> and \<open>mod\<close> on \<open>int\<close> do; a zero divisor raises.
\<close>

definition floordiv :: "int \<Rightarrow> int \<Rightarrow> py_error + int" where
  "floordiv a b =
     (if b = 0 then Inl (ZeroDivisionError ''integer division or modulo by zero'')
      else Inr (a div b))"

text \<open>
  A Python \<^verbatim>\<open>float\<close> is a binary64 number. The model represents a finite float by the
  rational number it denotes and rounds the exact result of every operation to the
  nearest number with a significand of 53 bits, ties to the even significand. The
  exponent range is not modelled: the quantities are pixel counts and their ratios,
  far from overflow and underflow.
\<close>

definition round_half_even :: "rat \<Rightarrow> int" where
  "round_half_even x =
     (let f = \<lfloor>x\<rfloor>; d = x - of_int f in
      if d < 1 / 2 then f
      else if 1 / 2 < d then f + 1
      else if even f then f else f + 1)"

text \<open>The exponent \<open>e\<close> with \<open>2 powi e \<le> \<bar>x\<bar> < 2 powi (e + 1)\<close>, for \<open>x \<noteq> 0\<close>.\<close>

definition float_exponent :: "rat \<Rightarrow> int" where
  "float_exponent x =
     (case quotient_of \<bar>x\<bar> of
        (p, q) \<Rightarrow>
          (let k = bitlen p - bitlen q in if 2 powi k \<le> \<bar>x\<bar> then k else k - 1))"

text \<open>The spacing of the floats around \<open>x\<close>: the unit in the last of the 53 bits.\<close>

definition float_ulp :: "rat \<Rightarrow> rat" where
  "float_ulp x = 2 powi (float_exponent x - 52)"

definition float_round :: "rat \<Rightarrow> rat" where
  "float_round x =
     (if x = 0 then 0 else of_int (round_half_even (x / float_ulp x)) * float_ulp x)"

text \<open>\<^verbatim>\<open>a / b\<close> on two integers: the correctly rounded quotient.\<close>

definition int_truediv :: "int \<Rightarrow> int \<Rightarrow> py_error + rat" where
  "int_truediv a b =
     (if b = 0 then Inl (ZeroDivisionError ''division by zero'')
      else Inr (float_round (of_int a / of_int b)))"

text \<open>\<^verbatim>\<open>n / x\<close> and \<^verbatim>\<open>n * x\<close> for an integer and a float: the integer is converted first.\<close>

definition int_div_float :: "int \<Rightarrow> rat \<Rightarrow> py_error + rat" where
  "int_div_float n x =
     (if x = 0 then Inl (ZeroDivisionError ''float division by zero'')
      else Inr (float_round (float_round (of_int n) / x)))"

definition int_mul_float :: "int \<Rightarrow> rat \<Rightarrow> rat" where
  "int_mul_float n x = float_round (float_round (of_int n) * x)"

text \<open>\<^verbatim>\<open>int(x)\<close> on a float truncates towards zero.\<close>

definition int_of_float :: "rat \<Rightarrow> int" where
  "int_of_float x = (if 0 \<le> x then \<lfloor>x\<rfloor> else \<lceil>x\<rceil>)"

subsection \<open>Images\<close>

text \<open>
  An image is the record of how it was made: decoded input data (with its mode and
  size and a tag for the pixels), a new image filled with one colour, the result of
  resampling to a new size, or an image with another one pasted at a position.
  \<open>mode\<close>, \<open>width\<close> and \<open>height\<close> are the attributes the method reads.
\<close>

datatype image =
    Decoded string int int nat
  | New string int int color
  | Resized image int int
  | Pasted image image int int

fun mode :: "image \<Rightarrow> string" where
  "mode (Decoded m w h d) = m"
| "mode (New m w h c) = m"
| "mode (Resized img w h) = mode img"
| "mode (Pasted base img x y) = mode base"

fun width :: "image \<Rightarrow> int" where
  "width (Decoded m w h d) = w"
| "width (New m w h c) = w"
| "width (Resized img w h) = w"
| "width (Pasted base img x y) = width base"

fun height :: "image \<Rightarrow> int" where
  "height (Decoded m w h d) = h"
| "height (New m w h c) = h"
| "height (Resized img w h) = h"
| "height (Pasted base img x y) = height base"

text \<open>
  The calls into the imaging library, Pillow. \<^verbatim>\<open>Image.new\<close> rejects a negative size.
  \<^verbatim>\<open>Image.resize\<close> returns a copy when the size does not change and rejects every
  other size with a dimension below 1. \<^verbatim>\<open>paste\<close> clips and never fails.
\<close>

definition image_new :: "string \<Rightarrow> int \<times> int \<Rightarrow> color \<Rightarrow> py_error + image" where
  "image_new m sz c =
     (case sz of
        (w, h) \<Rightarrow>
          (if w < 0 \<or> h < 0 then Inl (ValueError ''Width and height must be >= 0'')
           else Inr (New m w h c)))"

definition resize :: "image \<Rightarrow> int \<times> int \<Rightarrow> py_error + image" where
  "resize img sz =
     (case sz of
        (w, h) \<Rightarrow>
          (if (w, h) = (width img, height img) then Inr img
           else if w < 1 \<or> h < 1 then Inl (ValueError ''height and width must be > 0'')
           else Inr (Resized img w h)))"

subsection \<open>Fitting an image into a cell\<close>

text \<open>Lines 235 to 249, for an image of size \<open>(img_width, img_height)\<close>.\<close>

definition fitted_size :: "int \<Rightarrow> int \<Rightarrow> int \<times> int \<Rightarrow> py_error + (int \<times> int)" where
  "fitted_size available_width available_height sz =
     (case sz of
        (img_width, img_height) \<Rightarrow>
          bind_exn (int_truediv img_width img_height) (\<lambda>aspect_ratio.
            if 1 < aspect_ratio then
              bind_exn (int_div_float available_width aspect_ratio) (\<lambda>q.
                if available_height < int_of_float q then
                  Inr (int_of_float (int_mul_float available_height aspect_ratio),
                       available_height)
                else Inr (available_width, int_of_float q))
            else
              (let new_width = int_of_float (int_mul_float available_height aspect_ratio) in
               if available_width < new_width then
                 bind_exn (int_div_float available_width aspect_ratio) (\<lambda>q.
                   Inr (available_width, int_of_float q))
               else Inr (new_width, available_height))))"

text \<open>
  The values of \<^verbatim>\<open>aspect_ratio\<close> (line 236), of \<^verbatim>\<open>int(new_width / aspect_ratio)\<close>
  (lines 240 and 249) and of \<^verbatim>\<open>int(new_height * aspect_ratio)\<close> (lines 243 and 246)
  when the divisions do not raise.
\<close>

definition aspect_ratio :: "int \<Rightarrow> int \<Rightarrow> rat" where
  "aspect_ratio img_width img_height = float_round (of_int img_width / of_int img_height)"

definition height_for_width :: "int \<Rightarrow> rat \<Rightarrow> int" where
  "height_for_width new_width a = int_of_float (float_round (float_round (of_int new_width) / a))"

definition width_for_height :: "int \<Rightarrow> rat \<Rightarrow> int" where
  "width_for_height new_height a = int_of_float (float_round (float_round (of_int new_height) * a))"

text \<open>Lines 232 to 252: the loop stops at the first image that raises.\<close>

fun resize_images :: "int \<Rightarrow> int \<Rightarrow> image list \<Rightarrow> py_error + image list" where
  "resize_images available_width available_height [] = Inr []"
| "resize_images available_width available_height (img # images) =
     bind_exn (fitted_size available_width available_height (width img, height img)) (\<lambda>new_size.
     bind_exn (resize img new_size) (\<lambda>resized_img.
     bind_exn (resize_images available_width available_height images) (\<lambda>resized_images.
       Inr (resized_img # resized_images))))"

subsection \<open>Placing the cells\<close>

text \<open>
  Lines 276 to 288, for the image at index \<open>idx\<close>. \<open>columns\<close> is at least 1 here, so
  \<^verbatim>\<open>//\<close> and \<^verbatim>\<open>%\<close> cannot raise.
\<close>

definition cell_position ::
  "int \<Rightarrow> int \<Rightarrow> int \<Rightarrow> int \<Rightarrow> int \<Rightarrow> int \<Rightarrow> int \<Rightarrow> int \<times> int" where
  "cell_position columns padding base_width base_height rows last_row_items idx =
     (let row = idx div columns;
          col = idx mod columns;
          x = (if row = rows - 1 \<and> last_row_items < columns then
                 (let offset = (columns - last_row_items) * (base_width + padding) div 2
                  in col * (base_width + padding) + padding + offset)
               else col * (base_width + padding) + padding);
          y = row * (base_height + padding) + padding
      in (x, y))"

text \<open>Lines 275 to 289: the loop over \<^verbatim>\<open>enumerate(resized_images)\<close>, from index \<open>idx\<close> on.\<close>

fun paste_images :: "(int \<Rightarrow> int \<times> int) \<Rightarrow> image \<Rightarrow> int \<Rightarrow> image list \<Rightarrow> image" where
  "paste_images position grid_image idx [] = grid_image"
| "paste_images position grid_image idx (img # images) =
     (case position idx of
        (x, y) \<Rightarrow> paste_images position (Pasted grid_image img x y) (idx + 1) images)"

subsection \<open>The method\<close>

definition create_storyboard_grid ::
  "image list \<Rightarrow> string \<Rightarrow> py_value \<Rightarrow> int \<Rightarrow> int \<times> int \<Rightarrow> py_error + image" where
  "create_storyboard_grid images bg_color columns0 padding target_size =
     (if images = [] then Inl (ValueError ''No images provided'')
      else
        let bg = bg_color_tuple bg_color;
            columns = valid_columns columns0;
            num_images = int (length images)
        in
        bind_exn (floordiv (num_images + columns - 1) columns) (\<lambda>rows.
        case target_size of
          (target_width, target_height) \<Rightarrow>
        bind_exn (floordiv (target_width - (columns + 1) * padding) columns) (\<lambda>available_width.
        bind_exn (floordiv (num_images + columns - 1) columns) (\<lambda>max_rows.
        bind_exn (floordiv (target_height - (max_rows + 1) * padding) max_rows) (\<lambda>available_height.
        bind_exn (resize_images available_width available_height images) (\<lambda>resized_images.
        bind_exn (image_new ''RGB'' target_size bg) (\<lambda>final_image.
        let base_width = (case resized_images of r # _ \<Rightarrow> width r | [] \<Rightarrow> available_width);
            base_height = (case resized_images of r # _ \<Rightarrow> height r | [] \<Rightarrow> available_height);
            grid_width = columns * base_width + (columns + 1) * padding;
            grid_height = rows * base_height + (rows + 1) * padding
        in
        bind_exn (image_new ''RGB'' (grid_width, grid_height) bg) (\<lambda>grid_image.
        let last_row_items0 = num_images mod columns;
            last_row_items = (if last_row_items0 = 0 then columns else last_row_items0);
            grid_image' =
              paste_images
                (cell_position columns padding base_width base_height rows last_row_items)
                grid_image 0 resized_images;
            paste_x = max 0 ((target_width - grid_width) div 2);
            paste_y = max 0 ((target_height - grid_height) div 2)
        in Inr (Pasted final_image grid_image' paste_x paste_y)))))))))"

subsection \<open>Reading the layout and the result\<close>

text \<open>
  The values of the local variables \<^verbatim>\<open>rows\<close> (line 220), \<^verbatim>\<open>available_width\<close>
  (line 227), \<^verbatim>\<open>available_height\<close> (line 229) and \<^verbatim>\<open>last_row_items\<close> (lines 270
  to 272) when the divisions do not raise.
\<close>

definition num_rows :: "nat \<Rightarrow> int \<Rightarrow> int" where
  "num_rows n columns = (int n + columns - 1) div columns"

definition available_width :: "int \<Rightarrow> int \<Rightarrow> int \<Rightarrow> int" where
  "available_width target_width columns padding =
     (target_width - (columns + 1) * padding) div columns"

definition available_height :: "int \<Rightarrow> int \<Rightarrow> int \<Rightarrow> int" where
  "available_height target_height rows padding =
     (target_height - (rows + 1) * padding) div rows"

definition last_row_count :: "nat \<Rightarrow> int \<Rightarrow> int" where
  "last_row_count n columns = (if int n mod columns = 0 then columns else int n mod columns)"

text \<open>
  The canvas under a sequence of pastes, and the pasted images with their positions,
  first paste first.
\<close>

fun canvas_of :: "image \<Rightarrow> image" where
  "canvas_of (Pasted base img x y) = canvas_of base"
| "canvas_of img = img"

fun pasted_on :: "image \<Rightarrow> (image \<times> int \<times> int) list" where
  "pasted_on (Pasted base img x y) = pasted_on base @ [(img, x, y)]"
| "pasted_on img = []"

text \<open>The image pasted last: for the result of the method, the grid buffer.\<close>

definition grid_buffer :: "image \<Rightarrow> image" where
  "grid_buffer final = fst (last (pasted_on final))"

section \<open>Basic facts\<close>

lemma bind_exn_Inr: "bind_exn m f = Inr y \<longleftrightarrow> (\<exists>v. m = Inr v \<and> f v = Inr y)"
  by (cases m) (simp_all add: bind_exn_def)

lemma bind_exn_Inr_simp [simp]: "bind_exn (Inr v) f = f v"
  by (simp add: bind_exn_def)


lemma valid_columns_pos: "1 \<le> valid_columns columns0"
  by (simp add: valid_columns_def)

lemma floordiv_nonzero: "b \<noteq> 0 \<Longrightarrow> floordiv a b = Inr (a div b)"
  by (simp add: floordiv_def)

lemma num_rows_pos:
  assumes "0 < n" and "1 \<le> columns"
  shows "1 \<le> num_rows n columns"
proof -
  have "columns div columns \<le> (int n + columns - 1) div columns"
    using assms by (intro zdiv_mono1) simp_all
  then show ?thesis
    using assms by (simp add: num_rows_def)
qed

text \<open>
  The ceiling division of line 220 and the floor divisions of lines 227 and 229, as
  the ceiling and the floor of the exact quotients.
\<close>

lemma num_rows_ceiling:
  assumes "1 \<le> columns"
  shows "num_rows n columns = \<lceil>(of_nat n :: rat) / of_int columns\<rceil>"
proof -
  define z where "z = (int n + columns - 1) div columns"
  define m where "m = (int n + columns - 1) mod columns"
  have zm: "columns * z + m = int n + columns - 1"
    unfolding z_def m_def by simp
  have m: "0 \<le> m" "m < columns"
    unfolding m_def using assms by simp_all
  have lo: "(z - 1) * columns < int n"
    using zm m by (simp add: algebra_simps)
  have hi: "int n \<le> z * columns"
    using zm m by (simp add: algebra_simps)
  have "(of_int ((z - 1) * columns) :: rat) < of_int (int n)"
    using lo by (simp only: of_int_less_iff)
  then have a: "(of_int z :: rat) - 1 < of_nat n / of_int columns"
    using assms by (simp add: pos_less_divide_eq)
  have "(of_int (int n) :: rat) \<le> of_int (z * columns)"
    using hi by (simp only: of_int_le_iff)
  then have b: "(of_nat n :: rat) / of_int columns \<le> of_int z"
    using assms by (simp add: pos_divide_le_eq)
  have "\<lceil>(of_nat n :: rat) / of_int columns\<rceil> = z"
    using a b by (rule ceiling_unique)
  then show ?thesis
    by (simp add: num_rows_def z_def)
qed

lemma available_width_floor:
  "available_width target_width columns padding =
     \<lfloor>(of_int (target_width - (columns + 1) * padding) :: rat) / of_int columns\<rfloor>"
  by (simp only: available_width_def floor_divide_of_int_eq)

lemma available_height_floor:
  "available_height target_height rows padding =
     \<lfloor>(of_int (target_height - (rows + 1) * padding) :: rat) / of_int rows\<rfloor>"
  by (simp only: available_height_def floor_divide_of_int_eq)

lemma image_new_Inr:
  "image_new m (w, h) c = Inr img \<longleftrightarrow> 0 \<le> w \<and> 0 \<le> h \<and> img = New m w h c"
  by (auto simp: image_new_def)

text \<open>For a non-empty list the integer divisions do not raise, and the method is:\<close>

lemma create_storyboard_grid_unfold:
  assumes "images \<noteq> []"
  shows "create_storyboard_grid images bg_color columns0 padding (tw, th) =
    (let bg = bg_color_tuple bg_color;
         c = valid_columns columns0;
         rows = num_rows (length images) c;
         aw = available_width tw c padding;
         ah = available_height th rows padding
     in bind_exn (resize_images aw ah images) (\<lambda>resized.
        bind_exn (image_new ''RGB'' (tw, th) bg) (\<lambda>final_image.
          let bw = (case resized of r # _ \<Rightarrow> width r | [] \<Rightarrow> aw);
              bh = (case resized of r # _ \<Rightarrow> height r | [] \<Rightarrow> ah);
              gw = c * bw + (c + 1) * padding;
              gh = rows * bh + (rows + 1) * padding
          in bind_exn (image_new ''RGB'' (gw, gh) bg) (\<lambda>grid_image.
               Inr (Pasted final_image
                     (paste_images
                        (cell_position c padding bw bh rows (last_row_count (length images) c))
                        grid_image 0 resized)
                     (max 0 ((tw - gw) div 2)) (max 0 ((th - gh) div 2)))))))"
proof -
  have c: "valid_columns columns0 \<noteq> 0"
    using valid_columns_pos [of columns0] by simp
  have r: "num_rows (length images) (valid_columns columns0) \<noteq> 0"
    using num_rows_pos [of "length images" "valid_columns columns0"] assms
      valid_columns_pos [of columns0]
    by simp
  show ?thesis
    using assms c r
    by (simp add: create_storyboard_grid_def Let_def floordiv_nonzero available_width_def
        available_height_def last_row_count_def num_rows_def)
qed

lemma create_storyboard_grid_Inr_nonempty:
  "create_storyboard_grid images bg_color columns0 padding target_size = Inr final
     \<Longrightarrow> images \<noteq> []"
  by (auto simp: create_storyboard_grid_def)

lemma mode_paste_images: "mode (paste_images position grid idx images) = mode grid"
  by (induction images arbitrary: grid idx) (auto split: prod.splits)

lemma canvas_of_paste_images:
  "canvas_of (paste_images position grid idx images) = canvas_of grid"
  by (induction images arbitrary: grid idx) (auto split: prod.splits)

text \<open>
  A run of the method: a wide RGBA image and a square greyscale image, an invalid
  column count, on a canvas of 1920 by 1080. The cells are 626 wide; the first image
  becomes 626 by 313, the second 626 by 626, and the row of two is centred.
\<close>

lemma example_storyboard:
  "create_storyboard_grid [Decoded ''RGBA'' 200 100 0, Decoded ''L'' 100 100 1] ''#ff0080''
       (PyInt 0) 10 (1920, 1080) =
     Inr (Pasted (New ''RGB'' 1920 1080 (255, 0, 128))
       (Pasted
         (Pasted (New ''RGB'' 1918 333 (255, 0, 128))
           (Resized (Decoded ''RGBA'' 200 100 0) 626 313) 328 10)
         (Resized (Decoded ''L'' 100 100 1) 626 626) 964 10)
       1 373)"
  by code_simp

section \<open>The size of the canvas\<close>

text \<open>
  Claim C1. Whenever \<open>create_storyboard_grid\<close> returns an image, the width and the
  height of that image are exactly the \<open>target_size\<close> it was given, whatever the
  images, the column count and the padding are.
\<close>

theorem canvas_size_is_target_size:
  assumes "create_storyboard_grid images bg_color columns0 padding target_size = Inr final"
  shows "(width final, height final) = target_size"
proof -
  obtain tw th where ts: "target_size = (tw, th)"
    by (cases target_size)
  have ne: "images \<noteq> []"
    using assms by (rule create_storyboard_grid_Inr_nonempty)
  show ?thesis
    using assms unfolding ts create_storyboard_grid_unfold [OF ne]
    by (auto simp: Let_def bind_exn_Inr image_new_Inr)
qed

theorem canvas_size_is_target_size_witness:
  "map_sum (\<lambda>e. e) (\<lambda>final. (width final, height final))
     (create_storyboard_grid [Decoded ''RGBA'' 200 100 0, Decoded ''L'' 100 100 1] ''#ff0080''
        (PyInt 0) 10 (1920, 1080)) = Inr (1920, 1080)"
  using canvas_size_is_target_size [OF example_storyboard]
  unfolding example_storyboard by simp

section \<open>The empty list\<close>

text \<open>
  Claim C2. With an empty list of images the method raises \<^verbatim>\<open>ValueError\<close> with the
  message of line 198; the result is the exception, so no canvas and no image is
  produced.
\<close>

theorem empty_list_raises:
  "create_storyboard_grid [] bg_color columns0 padding target_size =
     Inl (ValueError ''No images provided'')"
  by (simp add: create_storyboard_grid_def)

theorem empty_list_raises_witness:
  "create_storyboard_grid [] ''#000000'' (PyInt 3) 10 (1920, 1080) =
     Inl (ValueError ''No images provided'')"
  by (rule empty_list_raises)

section \<open>The column count\<close>

text \<open>
  Claim C8. A column count that is not an integer, or is an integer below 1, is
  replaced by 3: the method then does exactly what it does for the column count 3,
  and the replacement itself cannot raise.
\<close>

theorem invalid_columns_default_to_three:
  assumes "\<not> isinstance_int columns0 \<or> int_value columns0 < 1"
  shows "valid_columns columns0 = 3 \<and>
         create_storyboard_grid images bg_color columns0 padding target_size =
         create_storyboard_grid images bg_color (PyInt 3) padding target_size"
proof -
  have "valid_columns columns0 = valid_columns (PyInt 3)"
    using assms by (simp add: valid_columns_def)
  then show ?thesis
    by (simp add: create_storyboard_grid_def valid_columns_def)
qed

theorem invalid_columns_default_to_three_witness:
  "int_value (PyInt 0) < 1 \<and> \<not> isinstance_int (PyFloat (5 / 2)) \<and>
   valid_columns (PyInt 0) = 3 \<and> valid_columns (PyFloat (5 / 2)) = 3 \<and>
   create_storyboard_grid [Decoded ''RGB'' 64 64 0] ''#000000'' (PyInt 0) 10 (1280, 720) =
   create_storyboard_grid [Decoded ''RGB'' 64 64 0] ''#000000'' (PyInt 3) 10 (1280, 720) \<and>
   create_storyboard_grid [Decoded ''RGB'' 64 64 0] ''#000000'' (PyFloat (5 / 2)) 10 (1280, 720) =
   create_storyboard_grid [Decoded ''RGB'' 64 64 0] ''#000000'' (PyInt 3) 10 (1280, 720)"
proof -
  have a: "\<not> isinstance_int (PyInt 0) \<or> int_value (PyInt 0) < 1"
    by simp
  have b: "\<not> isinstance_int (PyFloat (5 / 2)) \<or> int_value (PyFloat (5 / 2)) < 1"
    by simp
  show ?thesis
    using invalid_columns_default_to_three [OF a] invalid_columns_default_to_three [OF b]
    by simp
qed

section \<open>The size selector\<close>

text \<open>
  Claim C9. The selector resolves to the target size by a fixed table: the four
  resolutions of the table, \<open>(1920, 1080)\<close> for \<^verbatim>\<open>1080p (1920x1080)\<close> (which is not
  a key of the dictionary and falls back), and \<open>(1920, 1080)\<close> for every other string.
\<close>

theorem size_selector_lookup:
  "process_target_size ''4k (3840x2160)'' = (3840, 2160) \<and>
   process_target_size ''1440p (2560x1440)'' = (2560, 1440) \<and>
   process_target_size ''1080p (1920x1080)'' = (1920, 1080) \<and>
   process_target_size ''1920x1080'' = (1920, 1080) \<and>
   process_target_size ''720p (1280x720)'' = (1280, 720) \<and>
   (\<forall>s. s \<notin> {''4k (3840x2160)'', ''1440p (2560x1440)'', ''1080p (1920x1080)'',
              ''1920x1080'', ''720p (1280x720)''}
        \<longrightarrow> process_target_size s = (1920, 1080))"
  by (simp add: process_target_size_def parse_output_size_def size_map_def)

theorem size_selector_lookup_witness:
  "''square'' \<notin> {''4k (3840x2160)'', ''1440p (2560x1440)'', ''1080p (1920x1080)'',
              ''1920x1080'', ''720p (1280x720)''} \<and>
   process_target_size ''square'' = (1920, 1080) \<and>
   process_target_size ''4k (3840x2160)'' = (3840, 2160)"
proof -
  have h: "''square'' \<notin> {''4k (3840x2160)'', ''1440p (2560x1440)'', ''1080p (1920x1080)'',
              ''1920x1080'', ''720p (1280x720)''}"
    by simp
  show ?thesis
    using h size_selector_lookup by simp
qed

section \<open>The pixel format\<close>

text \<open>
  Claim C10. Whenever the method returns an image, that image has mode RGB: it is the
  final canvas, allocated in mode RGB, with the grid buffer pasted on it, and the grid
  buffer is in mode RGB too. The modes of the input images play no part.
\<close>

theorem output_is_rgb:
  assumes "create_storyboard_grid images bg_color columns0 padding target_size = Inr final"
  shows "mode final = ''RGB'' \<and>
         (\<exists>canvas grid x y. final = Pasted canvas grid x y \<and>
            mode canvas = ''RGB'' \<and> mode grid = ''RGB'')"
proof -
  obtain tw th where ts: "target_size = (tw, th)"
    by (cases target_size)
  have ne: "images \<noteq> []"
    using assms by (rule create_storyboard_grid_Inr_nonempty)
  show ?thesis
    using assms unfolding ts create_storyboard_grid_unfold [OF ne]
    by (auto simp: Let_def bind_exn_Inr image_new_Inr mode_paste_images)
qed

theorem output_is_rgb_witness:
  "map_sum (\<lambda>e. e) mode
     (create_storyboard_grid [Decoded ''RGBA'' 200 100 0, Decoded ''L'' 100 100 1] ''#ff0080''
        (PyInt 0) 10 (1920, 1080)) = Inr ''RGB''"
  using output_is_rgb [OF example_storyboard]
  unfolding example_storyboard by simp

section \<open>The background colour\<close>

















section \<open>The grid\<close>

text \<open>The pastes of the loop, in order, with the positions the loop computes.\<close>

lemma resize_images_length:
  "resize_images aw ah images = Inr resized \<Longrightarrow> length resized = length images"
  by (induction images arbitrary: resized) (auto simp: bind_exn_Inr)

lemma map_upt_Suc_shift: "map f [0..<Suc n] = f 0 # map (\<lambda>k. f (Suc k)) [0..<n]"
  by (simp only: upt_conv_Cons [OF zero_less_Suc] list.map map_Suc_upt [symmetric] map_map comp_def)

lemma pasted_on_paste_images:
  "pasted_on (paste_images position grid idx images) =
     pasted_on grid @ map (\<lambda>k. (images ! k, position (idx + int k))) [0..<length images]"
proof (induction images arbitrary: grid idx)
  case Nil
  then show ?case by simp
next
  case (Cons img images)
  obtain x y where p: "position idx = (x, y)"
    by (cases "position idx")
  have "pasted_on (paste_images position grid idx (img # images)) =
        pasted_on (paste_images position (Pasted grid img x y) (idx + 1) images)"
    by (simp add: p)
  also have "\<dots> = (pasted_on grid @ [(img, x, y)]) @
        map (\<lambda>k. (images ! k, position (idx + 1 + int k))) [0..<length images]"
    by (simp add: Cons.IH)
  also have "\<dots> = pasted_on grid @
        map (\<lambda>k. ((img # images) ! k, position (idx + int k))) [0..<length (img # images)]"
    by (simp add: map_upt_Suc_shift p add.assoc del: upt_Suc)
  finally show ?case .
qed

lemma grid_structure:
  assumes "create_storyboard_grid images bg_color columns0 padding (tw, th) = Inr final"
  shows "let bg = bg_color_tuple bg_color;
             c = valid_columns columns0;
             rows = num_rows (length images) c;
             aw = available_width tw c padding;
             ah = available_height th rows padding
         in \<exists>resized. resize_images aw ah images = Inr resized \<and>
              length resized = length images \<and> images \<noteq> [] \<and>
              (let bw = width (hd resized);
                   bh = height (hd resized);
                   gw = c * bw + (c + 1) * padding;
                   gh = rows * bh + (rows + 1) * padding
               in final =
                    Pasted (New ''RGB'' tw th bg)
                      (paste_images
                         (cell_position c padding bw bh rows (last_row_count (length images) c))
                         (New ''RGB'' gw gh bg) 0 resized)
                      (max 0 ((tw - gw) div 2)) (max 0 ((th - gh) div 2)))"
proof -
  have ne: "images \<noteq> []"
    using assms by (rule create_storyboard_grid_Inr_nonempty)
  from assms obtain resized where
    r: "resize_images (available_width tw (valid_columns columns0) padding)
          (available_height th (num_rows (length images) (valid_columns columns0)) padding)
          images = Inr resized"
    unfolding create_storyboard_grid_unfold [OF ne] by (auto simp: Let_def bind_exn_Inr)
  have len: "length resized = length images"
    using r by (rule resize_images_length)
  then obtain r0 rs where rs: "resized = r0 # rs"
    using ne by (cases resized) auto
  show ?thesis
    using assms ne len unfolding create_storyboard_grid_unfold [OF ne]
    by (auto simp: Let_def r rs bind_exn_Inr image_new_Inr)
qed

lemma cell_position_eq:
  "cell_position c padding bw bh rows lrc idx =
     ((idx mod c) * (bw + padding) + padding +
        (if idx div c = rows - 1 \<and> lrc < c then (c - lrc) * (bw + padding) div 2 else 0),
      (idx div c) * (bh + padding) + padding)"
  by (simp add: cell_position_def Let_def)

lemma map_fst_cells:
  "length resized = n \<Longrightarrow> map fst (map (\<lambda>k. (resized ! k, f k)) [0..<n]) = resized"
  by (auto simp: comp_def map_nth)

lemma grid_cells:
  assumes "create_storyboard_grid images bg_color columns0 padding (tw, th) = Inr final"
  shows "let bg = bg_color_tuple bg_color;
             c = valid_columns columns0;
             n = length images;
             rows = num_rows n c;
             aw = available_width tw c padding;
             ah = available_height th rows padding
         in \<exists>resized grid px py.
              resize_images aw ah images = Inr resized \<and> length resized = n \<and> 0 < n \<and>
              final = Pasted (New ''RGB'' tw th bg) grid px py \<and>
              canvas_of grid =
                New ''RGB'' (c * width (hd resized) + (c + 1) * padding)
                  (rows * height (hd resized) + (rows + 1) * padding) bg \<and>
              pasted_on grid =
                map (\<lambda>k. (resized ! k,
                       cell_position c padding (width (hd resized)) (height (hd resized)) rows
                         (last_row_count n c) (int k)))
                  [0..<n]"
proof -
  from grid_structure [OF assms] obtain resized where
    r: "resize_images (available_width tw (valid_columns columns0) padding)
          (available_height th (num_rows (length images) (valid_columns columns0)) padding)
          images = Inr resized"
    and len: "length resized = length images" and ne: "images \<noteq> []"
    and final: "final =
       Pasted (New ''RGB'' tw th (bg_color_tuple bg_color))
         (paste_images
            (cell_position (valid_columns columns0) padding (width (hd resized))
               (height (hd resized)) (num_rows (length images) (valid_columns columns0))
               (last_row_count (length images) (valid_columns columns0)))
            (New ''RGB''
               (valid_columns columns0 * width (hd resized) + (valid_columns columns0 + 1) * padding)
               (num_rows (length images) (valid_columns columns0) * height (hd resized) +
                (num_rows (length images) (valid_columns columns0) + 1) * padding)
               (bg_color_tuple bg_color))
            0 resized)
         (max 0 ((tw - (valid_columns columns0 * width (hd resized) +
                        (valid_columns columns0 + 1) * padding)) div 2))
         (max 0 ((th - (num_rows (length images) (valid_columns columns0) * height (hd resized) +
                        (num_rows (length images) (valid_columns columns0) + 1) * padding)) div 2))"
    unfolding Let_def by blast
  show ?thesis
    unfolding Let_def
  proof (intro exI conjI)
    show "resize_images (available_width tw (valid_columns columns0) padding)
          (available_height th (num_rows (length images) (valid_columns columns0)) padding)
          images = Inr resized"
      by (rule r)
    show "length resized = length images"
      by (rule len)
    show "0 < length images"
      using ne by simp
    show "final = Pasted (New ''RGB'' tw th (bg_color_tuple bg_color))
         (paste_images
            (cell_position (valid_columns columns0) padding (width (hd resized))
               (height (hd resized)) (num_rows (length images) (valid_columns columns0))
               (last_row_count (length images) (valid_columns columns0)))
            (New ''RGB''
               (valid_columns columns0 * width (hd resized) + (valid_columns columns0 + 1) * padding)
               (num_rows (length images) (valid_columns columns0) * height (hd resized) +
                (num_rows (length images) (valid_columns columns0) + 1) * padding)
               (bg_color_tuple bg_color))
            0 resized)
         (max 0 ((tw - (valid_columns columns0 * width (hd resized) +
                        (valid_columns columns0 + 1) * padding)) div 2))
         (max 0 ((th - (num_rows (length images) (valid_columns columns0) * height (hd resized) +
                        (num_rows (length images) (valid_columns columns0) + 1) * padding)) div 2))"
      by (rule final)
  qed (simp_all add: canvas_of_paste_images pasted_on_paste_images len)
qed

text \<open>
  A run with four square images in three columns: the cells are 100 by 100, the padding
  is 10, and the fourth image is alone in the last row.
\<close>

lemma example_grid:
  "create_storyboard_grid
     [Decoded ''RGB'' 200 200 0, Decoded ''RGB'' 200 200 1, Decoded ''RGB'' 200 200 2,
      Decoded ''RGB'' 200 200 3] ''#000000'' (PyInt 3) 10 (340, 230) =
   Inr (Pasted (New ''RGB'' 340 230 (0, 0, 0))
          (Pasted
            (Pasted
              (Pasted
                (Pasted (New ''RGB'' 340 230 (0, 0, 0))
                   (Resized (Decoded ''RGB'' 200 200 0) 100 100) 10 10)
                (Resized (Decoded ''RGB'' 200 200 1) 100 100) 120 10)
              (Resized (Decoded ''RGB'' 200 200 2) 100 100) 230 10)
            (Resized (Decoded ''RGB'' 200 200 3) 100 100) 120 120)
          0 0)"
  by code_simp

text \<open>
  Claim C6. When the method returns, the grid buffer is a new RGB image, filled with
  the background colour, of width \<open>columns * cell_width + (columns + 1) * padding\<close>
  and height \<open>rows * cell_height + (rows + 1) * padding\<close>, where the cell size is
  the size of the first resized image. The resized images are pasted on it in order,
  the image with index \<open>i\<close> in row \<open>i div columns\<close> and column \<open>i mod columns\<close>, at
  \<open>y = row * (cell_height + padding) + padding\<close> and at the default
  \<open>x = col * (cell_width + padding) + padding\<close> plus the shift of a last row that is
  not full.
\<close>

theorem placement_row_major:
  assumes "create_storyboard_grid images bg_color columns0 padding (tw, th) = Inr final"
  shows "let bg = bg_color_tuple bg_color;
             c = valid_columns columns0;
             n = length images;
             rows = num_rows n c;
             aw = available_width tw c padding;
             ah = available_height th rows padding;
             cells = pasted_on (grid_buffer final);
             cw = width (fst (hd cells));
             ch = height (fst (hd cells))
         in resize_images aw ah images = Inr (map fst cells) \<and>
            length cells = n \<and>
            canvas_of (grid_buffer final) =
              New ''RGB'' (c * cw + (c + 1) * padding) (rows * ch + (rows + 1) * padding) bg \<and>
            (\<forall>i<n.
               let row = int i div c;
                   col = int i mod c;
                   shift = (if row = rows - 1 \<and> last_row_count n c < c
                            then (c - last_row_count n c) * (cw + padding) div 2 else 0)
               in snd (cells ! i) =
                    (col * (cw + padding) + padding + shift, row * (ch + padding) + padding))"
proof -
  from grid_cells [OF assms] obtain resized grid px py where
    r: "resize_images (available_width tw (valid_columns columns0) padding)
          (available_height th (num_rows (length images) (valid_columns columns0)) padding)
          images = Inr resized"
    and len: "length resized = length images" and pos: "0 < length images"
    and final: "final = Pasted (New ''RGB'' tw th (bg_color_tuple bg_color)) grid px py"
    and canvas: "canvas_of grid =
       New ''RGB'' (valid_columns columns0 * width (hd resized) + (valid_columns columns0 + 1) * padding)
         (num_rows (length images) (valid_columns columns0) * height (hd resized) +
          (num_rows (length images) (valid_columns columns0) + 1) * padding)
         (bg_color_tuple bg_color)"
    and cells: "pasted_on grid =
       map (\<lambda>k. (resized ! k,
              cell_position (valid_columns columns0) padding (width (hd resized))
                (height (hd resized)) (num_rows (length images) (valid_columns columns0))
                (last_row_count (length images) (valid_columns columns0)) (int k)))
         [0..<length images]"
    unfolding Let_def by blast
  have gb: "grid_buffer final = grid"
    by (simp add: grid_buffer_def final)
  have fsts: "map fst (pasted_on grid) = resized"
    unfolding cells using len by (rule map_fst_cells)
  have hd0: "fst (hd (pasted_on grid)) = hd resized"
    using fsts pos len by (metis hd_map length_greater_0_conv list.map_disc_iff)
  show ?thesis
    unfolding Let_def gb hd0 fsts
    using r canvas by (simp add: cells cell_position_eq)
qed

theorem placement_row_major_witness:
  "map_sum (\<lambda>e. e)
     (\<lambda>final. (canvas_of (grid_buffer final), map snd (pasted_on (grid_buffer final))))
     (create_storyboard_grid
        [Decoded ''RGB'' 200 200 0, Decoded ''RGB'' 200 200 1, Decoded ''RGB'' 200 200 2,
         Decoded ''RGB'' 200 200 3] ''#000000'' (PyInt 3) 10 (340, 230)) =
   Inr (New ''RGB'' 340 230 (0, 0, 0), [(10, 10), (120, 10), (230, 10), (120, 120)])"
proof -
  note t = placement_row_major [OF example_grid, unfolded Let_def]
  have c: "canvas_of (grid_buffer (Pasted (New ''RGB'' 340 230 (0, 0, 0))
          (Pasted
            (Pasted
              (Pasted
                (Pasted (New ''RGB'' 340 230 (0, 0, 0))
                   (Resized (Decoded ''RGB'' 200 200 0) 100 100) 10 10)
                (Resized (Decoded ''RGB'' 200 200 1) 100 100) 120 10)
              (Resized (Decoded ''RGB'' 200 200 2) 100 100) 230 10)
            (Resized (Decoded ''RGB'' 200 200 3) 100 100) 120 120)
          0 0)) = New ''RGB'' 340 230 (0, 0, 0)"
    using t by (simp add: valid_columns_def num_rows_def grid_buffer_def bg_color_tuple_def)
  show ?thesis
    unfolding example_grid using c by (simp add: grid_buffer_def)
qed

text \<open>
  Claim C7. The cells of the last row are shifted to the right by
  \<open>(columns - n mod columns) * (cell_width + padding) div 2\<close> exactly when the last
  row is not full, that is when \<open>n mod columns\<close> is not 0; every other cell is at
  its default \<open>x\<close>. With three columns, padding 10, cells of 100 by 100 and one image
  in the last row, that image is at \<open>x = 120\<close>.
\<close>

theorem last_row_centering:
  assumes "create_storyboard_grid images bg_color columns0 padding (tw, th) = Inr final"
  shows "let c = valid_columns columns0;
             n = length images;
             rows = num_rows n c;
             cells = pasted_on (grid_buffer final);
             cw = width (fst (hd cells))
         in length cells = n \<and>
            (\<forall>i<n.
               let x = fst (snd (cells ! i));
                   default_x = (int i mod c) * (cw + padding) + padding
               in if int n mod c \<noteq> 0 \<and> int i div c = rows - 1
                  then x = default_x + (c - int n mod c) * (cw + padding) div 2
                  else x = default_x)"
proof -
  define c where "c = valid_columns columns0"
  define n where "n = length images"
  define rows where "rows = num_rows n c"
  from grid_cells [OF assms] obtain resized grid px py where
    len: "length resized = n" and pos: "0 < n"
    and final: "final = Pasted (New ''RGB'' tw th (bg_color_tuple bg_color)) grid px py"
    and cells: "pasted_on grid =
       map (\<lambda>k. (resized ! k,
              cell_position c padding (width (hd resized)) (height (hd resized)) rows
                (last_row_count n c) (int k)))
         [0..<n]"
    unfolding Let_def c_def n_def rows_def by blast
  define cw where "cw = width (hd resized)"
  have gb: "grid_buffer final = grid"
    by (simp add: grid_buffer_def final)
  have fsts: "map fst (pasted_on grid) = resized"
    unfolding cells using len by (rule map_fst_cells)
  have hd0: "fst (hd (pasted_on grid)) = hd resized"
    using fsts pos len by (metis hd_map length_greater_0_conv list.map_disc_iff)
  have c: "1 \<le> c"
    unfolding c_def by (rule valid_columns_pos)
  have x: "fst (snd (pasted_on grid ! i)) =
             (int i mod c) * (cw + padding) + padding +
               (if int i div c = rows - 1 \<and> last_row_count n c < c
                then (c - last_row_count n c) * (cw + padding) div 2 else 0)"
    if "i < n" for i
    using that by (simp add: cells cell_position_eq cw_def)
  have shifted: "fst (snd (pasted_on grid ! i)) =
             (int i mod c) * (cw + padding) + padding + (c - int n mod c) * (cw + padding) div 2"
    if "i < n" and "int n mod c \<noteq> 0" and "int i div c = rows - 1" for i
    using that c by (simp add: x last_row_count_def)
  have unshifted: "fst (snd (pasted_on grid ! i)) = (int i mod c) * (cw + padding) + padding"
    if "i < n" and "\<not> (int n mod c \<noteq> 0 \<and> int i div c = rows - 1)" for i
    using that c by (auto simp: x last_row_count_def)
  have "length (pasted_on grid) = n"
    by (simp add: cells)
  then show ?thesis
    unfolding Let_def gb hd0 c_def [symmetric] n_def [symmetric] rows_def [symmetric]
      cw_def [symmetric]
    using shifted unshifted by simp
qed

theorem last_row_centering_witness:
  "map_sum (\<lambda>e. e) (\<lambda>final. fst (snd (pasted_on (grid_buffer final) ! 3)))
     (create_storyboard_grid
        [Decoded ''RGB'' 200 200 0, Decoded ''RGB'' 200 200 1, Decoded ''RGB'' 200 200 2,
         Decoded ''RGB'' 200 200 3] ''#000000'' (PyInt 3) 10 (340, 230)) = Inr 120"
proof -
  note t = last_row_centering [OF example_grid, unfolded Let_def, THEN conjunct2, rule_format, of 3]
  have "fst (snd (pasted_on (grid_buffer (Pasted (New ''RGB'' 340 230 (0, 0, 0))
          (Pasted
            (Pasted
              (Pasted
                (Pasted (New ''RGB'' 340 230 (0, 0, 0))
                   (Resized (Decoded ''RGB'' 200 200 0) 100 100) 10 10)
                (Resized (Decoded ''RGB'' 200 200 1) 100 100) 120 10)
              (Resized (Decoded ''RGB'' 200 200 2) 100 100) 230 10)
            (Resized (Decoded ''RGB'' 200 200 3) 100 100) 120 120)
          0 0)) ! 3)) = 0 * (100 + 10) + 10 + (3 - 1) * (100 + 10) div 2"
    using t by (simp add: valid_columns_def num_rows_def grid_buffer_def)
  then show ?thesis
    unfolding example_grid by simp
qed

section \<open>Floating-point rounding\<close>

lemma bitlen_powi_bounds:
  assumes "0 < p"
  shows "(2::rat) powi (bitlen p - 1) \<le> of_int p" and "of_int p < (2::rat) powi (bitlen p)"
proof -
  have b: "1 \<le> bitlen p"
    using assms by (simp add: bitlen_alt_def)
  have "2 ^ nat (bitlen p - 1) \<le> p" and "p < 2 ^ nat (bitlen p)"
    using bitlen_bounds [OF assms] by simp_all
  then have "(of_int (2 ^ nat (bitlen p - 1)) :: rat) \<le> of_int p"
    and "(of_int p :: rat) < of_int (2 ^ nat (bitlen p))"
    by (simp_all only: of_int_le_iff of_int_less_iff)
  then show "(2::rat) powi (bitlen p - 1) \<le> of_int p" and "of_int p < (2::rat) powi (bitlen p)"
    using b by (simp_all add: power_int_nonneg_exp)
qed

lemma float_exponent_bounds:
  assumes "x \<noteq> 0"
  shows "2 powi (float_exponent x) \<le> \<bar>x\<bar>" and "\<bar>x\<bar> < 2 powi (float_exponent x + 1)"
proof -
  obtain p q where pq: "quotient_of \<bar>x\<bar> = (p, q)"
    by (cases "quotient_of \<bar>x\<bar>")
  have q: "0 < q"
    using pq by (rule quotient_of_denom_pos)
  have x: "\<bar>x\<bar> = of_int p / of_int q"
    using pq by (rule quotient_of_div)
  have "0 < \<bar>x\<bar>"
    using assms by simp
  then have p: "0 < p"
    using q unfolding x by (simp add: zero_less_divide_iff)
  define k where "k = bitlen p - bitlen q"
  have lo: "(2::rat) powi (k - 1) \<le> \<bar>x\<bar>"
  proof -
    have "(2::rat) powi (bitlen p - 1) / 2 powi (bitlen q) \<le> of_int p / of_int q"
      using bitlen_powi_bounds [OF p] bitlen_powi_bounds [OF q] p q
      by (intro frac_le) simp_all
    moreover have "(2::rat) powi (k - 1) = 2 powi (bitlen p - 1) / 2 powi (bitlen q)"
      unfolding k_def by (simp add: power_int_diff [symmetric] algebra_simps)
    ultimately show ?thesis
      unfolding x by simp
  qed
  have hi: "\<bar>x\<bar> < (2::rat) powi (k + 1)"
  proof -
    have "of_int p / of_int q < (2::rat) powi (bitlen p) / 2 powi (bitlen q - 1)"
      using bitlen_powi_bounds [OF p] bitlen_powi_bounds [OF q] p q
      by (intro frac_less) simp_all
    moreover have "(2::rat) powi (k + 1) = 2 powi (bitlen p) / 2 powi (bitlen q - 1)"
      unfolding k_def by (simp add: power_int_diff [symmetric] algebra_simps)
    ultimately show ?thesis
      unfolding x by simp
  qed
  have e: "float_exponent x = (if 2 powi k \<le> \<bar>x\<bar> then k else k - 1)"
    by (simp add: float_exponent_def pq k_def Let_def)
  show "2 powi (float_exponent x) \<le> \<bar>x\<bar>"
    using lo by (simp add: e)
  show "\<bar>x\<bar> < 2 powi (float_exponent x + 1)"
    using hi by (auto simp: e)
qed

lemma round_half_even_error: "\<bar>of_int (round_half_even m) - m\<bar> \<le> 1 / 2"
proof -
  have "of_int \<lfloor>m\<rfloor> \<le> m" and "m < of_int \<lfloor>m\<rfloor> + 1"
    by linarith+
  then show ?thesis
    by (auto simp: round_half_even_def Let_def abs_le_iff)
qed

lemma round_half_even_le:
  assumes "m \<le> of_int M"
  shows "round_half_even m \<le> M"
proof -
  have f: "\<lfloor>m\<rfloor> \<le> M"
    using assms by (simp add: floor_le_iff)
  show ?thesis
  proof (cases "\<lfloor>m\<rfloor> = M")
    case True
    then have "m - of_int \<lfloor>m\<rfloor> \<le> 0"
      using assms by simp
    then show ?thesis
      using True by (simp add: round_half_even_def Let_def)
  next
    case False
    then have "\<lfloor>m\<rfloor> + 1 \<le> M"
      using f by simp
    then show ?thesis
      using f by (auto simp: round_half_even_def Let_def)
  qed
qed

lemma round_half_even_ge:
  assumes "of_int M \<le> m"
  shows "M \<le> round_half_even m"
proof -
  have "M \<le> \<lfloor>m\<rfloor>"
    using assms by (simp add: le_floor_iff)
  then show ?thesis
    by (auto simp: round_half_even_def Let_def)
qed

lemma round_half_even_of_int: "round_half_even (of_int k) = k"
  by (simp add: round_half_even_def)

lemma float_round_ulp:
  "x \<noteq> 0 \<Longrightarrow> float_round x = of_int (round_half_even (x / float_ulp x)) * float_ulp x"
  by (simp add: float_round_def)

lemma float_ulp_pos: "0 < float_ulp x"
  by (simp add: float_ulp_def)

lemma float_ulp_le:
  assumes "x \<noteq> 0"
  shows "float_ulp x * 2 ^ 52 \<le> \<bar>x\<bar>"
proof -
  have "(2::rat) powi (float_exponent x - 52 + 52) = 2 powi (float_exponent x - 52) * 2 powi 52"
    by (rule power_int_add) simp
  then have "float_ulp x * 2 ^ 52 = 2 powi (float_exponent x)"
    by (simp add: float_ulp_def)
  then show ?thesis
    using float_exponent_bounds(1) [OF assms] by simp
qed

lemma float_round_error: "\<bar>float_round x - x\<bar> \<le> \<bar>x\<bar> / 2 ^ 53"
proof (cases "x = 0")
  case True
  then show ?thesis by (simp add: float_round_def)
next
  case False
  define u where "u = float_ulp x"
  define m where "m = x / u"
  have u: "0 < u"
    unfolding u_def by (rule float_ulp_pos)
  have mu: "m * u = x"
    using u by (simp add: m_def)
  have fr: "float_round x = of_int (round_half_even m) * u"
    using False by (simp add: float_round_ulp u_def m_def)
  have "float_round x - x = (of_int (round_half_even m) - m) * u"
    by (simp add: fr mu left_diff_distrib)
  then have "\<bar>float_round x - x\<bar> = \<bar>of_int (round_half_even m) - m\<bar> * u"
    using u by (simp add: abs_mult)
  also have "\<dots> \<le> 1 / 2 * u"
    using u round_half_even_error [of m] by (intro mult_right_mono) simp_all
  also have "\<dots> = (u * 2 ^ 52) / 2 ^ 53"
    by simp
  also have "\<dots> \<le> \<bar>x\<bar> / 2 ^ 53"
    using float_ulp_le [OF False] by (intro divide_right_mono) (simp_all add: u_def)
  finally show ?thesis .
qed

lemma float_round_bounds:
  shows "float_round x \<le> x + \<bar>x\<bar> / 2 ^ 53" and "x - \<bar>x\<bar> / 2 ^ 53 \<le> float_round x"
proof -
  have "float_round x - x \<le> \<bar>x\<bar> / 2 ^ 53"
    using float_round_error [of x] by (rule abs_le_D1)
  then show "float_round x \<le> x + \<bar>x\<bar> / 2 ^ 53"
    by linarith
  have "- (float_round x - x) \<le> \<bar>x\<bar> / 2 ^ 53"
    using float_round_error [of x] by (rule abs_le_D2)
  then show "x - \<bar>x\<bar> / 2 ^ 53 \<le> float_round x"
    by linarith
qed

lemma float_round_zero: "float_round 0 = 0"
  by (simp add: float_round_def)

lemma float_round_pos:
  assumes "0 < x"
  shows "0 < float_round x"
proof -
  have "x / 2 ^ 53 < x"
    using assms by simp
  then show ?thesis
    using float_round_bounds(2) [of x] assms by simp
qed

lemma float_round_neg:
  assumes "x < 0"
  shows "float_round x < 0"
proof -
  have "x < x / 2 ^ 53"
    using assms by simp
  then show ?thesis
    using float_round_bounds(1) [of x] assms by simp
qed

lemma float_round_nonneg: "0 \<le> x \<Longrightarrow> 0 \<le> float_round x"
  using float_round_pos [of x] float_round_zero by (cases "x = 0") (simp_all add: less_imp_le)

lemma float_round_nonpos: "x \<le> 0 \<Longrightarrow> float_round x \<le> 0"
  using float_round_neg [of x] float_round_zero by (cases "x = 0") (simp_all add: less_imp_le)

lemma float_round_relative:
  assumes "0 \<le> x"
  shows "x * (1 - 1 / 2 ^ 53) \<le> float_round x" and "float_round x \<le> x * (1 + 1 / 2 ^ 53)"
  using assms float_round_bounds [of x] by (simp_all add: algebra_simps)

text \<open>Below \<open>2 ^ 53\<close> the spacing of the floats is at most 1.\<close>

lemma float_exponent_small:
  assumes "x \<noteq> 0" and "\<bar>x\<bar> < 2 ^ 53"
  shows "float_exponent x \<le> 52"
proof (rule ccontr)
  assume "\<not> float_exponent x \<le> 52"
  then have "53 \<le> float_exponent x"
    by simp
  then have "(2::rat) powi 53 \<le> 2 powi (float_exponent x)"
    by (intro power_int_increasing) simp_all
  then show False
    using float_exponent_bounds(1) [OF assms(1)] assms(2) by simp
qed

lemma inverse_float_ulp:
  assumes "float_exponent x \<le> 52"
  shows "1 / float_ulp x = of_int (2 ^ nat (52 - float_exponent x))"
proof -
  have "1 / float_ulp x = 2 powi (52 - float_exponent x)"
    by (simp add: float_ulp_def power_int_minus_divide [symmetric])
  then show ?thesis
    using assms by (simp add: power_int_nonneg_exp)
qed

lemma float_round_le_int:
  assumes "x \<le> of_int N" and "0 \<le> N" and "N < 2 ^ 53"
  shows "float_round x \<le> of_int N"
proof (cases "0 < x")
  case False
  then have "float_round x \<le> 0"
    by (intro float_round_nonpos) simp
  then show ?thesis
    using assms(2) by (simp add: order_trans [of _ 0])
next
  case True
  define u where "u = float_ulp x"
  define k where "k = (2::int) ^ nat (52 - float_exponent x)"
  have "\<bar>x\<bar> < 2 ^ 53"
  proof -
    have "x < of_int (2 ^ 53)"
      using assms(1,3) by (meson le_less_trans of_int_less_iff)
    then show ?thesis
      using True by simp
  qed
  then have e: "float_exponent x \<le> 52"
    using True by (intro float_exponent_small) simp_all
  have u: "0 < u"
    unfolding u_def by (rule float_ulp_pos)
  have iu: "1 / u = of_int k"
    unfolding u_def k_def using e by (rule inverse_float_ulp)
  have "x / u \<le> of_int N / u"
    using assms(1) u by (intro divide_right_mono) simp_all
  also have "\<dots> = of_int (N * k)"
    using iu by (simp add: divide_inverse)
  finally have "round_half_even (x / u) \<le> N * k"
    by (rule round_half_even_le)
  then have "(of_int (round_half_even (x / u)) :: rat) \<le> of_int (N * k)"
    by (simp only: of_int_le_iff)
  then have "of_int (round_half_even (x / u)) * u \<le> of_int (N * k) * u"
    using u by (intro mult_right_mono) simp_all
  also have "\<dots> = of_int N * (of_int k * u)"
    by simp
  also have "of_int k * u = 1"
    using iu u by (simp add: field_simps)
  finally show ?thesis
    using True by (simp add: float_round_ulp u_def)
qed

lemma float_round_of_int:
  assumes "\<bar>n\<bar> < 2 ^ 53"
  shows "float_round (of_int n) = of_int n"
proof (cases "n = 0")
  case True
  then show ?thesis by (simp add: float_round_zero)
next
  case False
  define x where "x = (of_int n :: rat)"
  define u where "u = float_ulp x"
  define k where "k = (2::int) ^ nat (52 - float_exponent x)"
  have x0: "x \<noteq> 0"
    using False by (simp add: x_def)
  have "\<bar>x\<bar> = of_int \<bar>n\<bar>"
    by (simp add: x_def)
  also have "\<dots> < of_int (2 ^ 53)"
    using assms by (simp only: of_int_less_iff)
  finally have "\<bar>x\<bar> < 2 ^ 53"
    by simp
  then have e: "float_exponent x \<le> 52"
    using x0 by (intro float_exponent_small)
  have u: "0 < u"
    unfolding u_def by (rule float_ulp_pos)
  have iu: "1 / u = of_int k"
    unfolding u_def k_def using e by (rule inverse_float_ulp)
  have "x / u = of_int (n * k)"
    using iu by (simp add: divide_inverse x_def)
  then have "round_half_even (x / u) = n * k"
    by (simp only: round_half_even_of_int)
  then have "float_round x = of_int (n * k) * u"
    by (simp only: float_round_ulp [OF x0] u_def [symmetric])
  also have "\<dots> = of_int n * (of_int k * u)"
    by simp
  also have "of_int k * u = 1"
    using iu u by (simp add: field_simps)
  finally show ?thesis
    by (simp add: x_def)
qed

text \<open>
  The model against values that Python prints: \<^verbatim>\<open>0.1\<close> and \<^verbatim>\<open>1/49\<close> as exact
  fractions, \<^verbatim>\<open>49 * (1/49)\<close>, which is \<^verbatim>\<open>0.9999999999999999\<close>, and the
  conversions \<^verbatim>\<open>float(2**53 + 1)\<close> and \<^verbatim>\<open>float(2**53 + 3)\<close>.
\<close>

lemma float_round_examples:
  "float_round (1 / 10) = 3602879701896397 / 2 ^ 55"
  "float_round (1 / 49) = 5882252574524729 / 2 ^ 58"
  "float_round (49 * float_round (1 / 49)) = 1 - 1 / 2 ^ 53"
  "float_round (2 ^ 53 + 1) = 2 ^ 53"
  "float_round (2 ^ 53 + 3) = 2 ^ 53 + 4"
  by code_simp+

section \<open>Fitting into a cell\<close>

lemma aspect_ratio_pos: "0 < w \<Longrightarrow> 0 < h \<Longrightarrow> 0 < aspect_ratio w h"
  by (simp add: aspect_ratio_def float_round_pos)

lemma fitted_size_eq:
  assumes "0 < w" and "0 < h"
  shows "fitted_size aw ah (w, h) =
     Inr (if 1 < aspect_ratio w h then
            (if ah < height_for_width aw (aspect_ratio w h)
             then (width_for_height ah (aspect_ratio w h), ah)
             else (aw, height_for_width aw (aspect_ratio w h)))
          else
            (if aw < width_for_height ah (aspect_ratio w h)
             then (aw, height_for_width aw (aspect_ratio w h))
             else (width_for_height ah (aspect_ratio w h), ah)))"
proof -
  have a: "aspect_ratio w h \<noteq> 0"
    using aspect_ratio_pos [OF assms] by simp
  have t: "int_truediv w h = Inr (aspect_ratio w h)"
    using assms by (simp add: int_truediv_def aspect_ratio_def)
  show ?thesis
    using a by (simp add: fitted_size_def t int_div_float_def int_mul_float_def Let_def
        height_for_width_def width_for_height_def)
qed



lemma int_of_float_le: "x \<le> of_int N \<Longrightarrow> int_of_float x \<le> N"
  by (auto simp: int_of_float_def ceiling_le_iff floor_le_iff intro: order_trans)

lemma int_of_float_bounds:
  assumes "0 \<le> x"
  shows "of_int (int_of_float x) \<le> x" and "x < of_int (int_of_float x) + 1"
proof -
  have f: "int_of_float x = \<lfloor>x\<rfloor>"
    using assms by (simp add: int_of_float_def)
  show "of_int (int_of_float x) \<le> x"
    unfolding f by simp
  show "x < of_int (int_of_float x) + 1"
    unfolding f by linarith
qed




text \<open>
  If the rounded product reaches \<open>Q + 1\<close>, the exact product reaches \<open>Q\<close>: the
  rounding error is too small to carry a value below \<open>Q\<close> up to \<open>Q + 1\<close>.
\<close>

lemma rounded_exceeds:
  assumes "0 \<le> y" and "0 \<le> Q" and "Q < 2 ^ 53"
    and "of_int (Q + 1) \<le> float_round y"
  shows "of_int Q \<le> y"
proof (rule ccontr)
  assume "\<not> of_int Q \<le> y"
  then have lt: "y < of_int Q"
    by simp
  have "(of_int Q :: rat) \<le> of_int (2 ^ 53)"
    using assms(3) by (simp only: of_int_le_iff)
  then have q: "(of_int Q :: rat) / 2 ^ 53 \<le> 1"
    by simp
  have "float_round y \<le> y * (1 + 1 / 2 ^ 53)"
    using assms(1) by (rule float_round_relative)
  also have "\<dots> < of_int Q * (1 + 1 / 2 ^ 53)"
    using lt by (intro mult_strict_right_mono) simp_all
  also have "\<dots> \<le> of_int Q + 1"
    using q by (simp add: algebra_simps)
  finally show False
    using assms(4) by simp
qed

lemma refit_width:
  assumes a: "0 < a" and aw: "0 < aw" "aw < 2 ^ 53" and ah: "0 < ah" "ah < 2 ^ 53"
    and over: "ah < height_for_width aw a"
  shows "width_for_height ah a \<le> aw"
proof -
  have faw: "float_round (of_int aw) = of_int aw" and fah: "float_round (of_int ah) = of_int ah"
    using aw ah by (simp_all add: float_round_of_int)
  define y where "y = (of_int aw :: rat) / a"
  have y: "0 \<le> y"
    using a aw by (simp add: y_def)
  have "of_int (height_for_width aw a) \<le> float_round y"
    unfolding height_for_width_def faw y_def [symmetric]
    using y by (intro int_of_float_bounds float_round_nonneg)
  moreover have "(of_int (ah + 1) :: rat) \<le> of_int (height_for_width aw a)"
    using over by (simp only: of_int_le_iff)
  ultimately have ge: "of_int (ah + 1) \<le> float_round y"
    by (rule order_trans [rotated])
  have "of_int ah \<le> y"
    by (rule rounded_exceeds [OF y _ _ ge]) (use ah in simp_all)
  then have "of_int ah * a \<le> of_int aw"
    using a by (simp add: y_def pos_le_divide_eq)
  then have "float_round (of_int ah * a) \<le> of_int aw"
    using aw by (intro float_round_le_int) simp_all
  then show ?thesis
    unfolding width_for_height_def fah by (rule int_of_float_le)
qed

lemma refit_height:
  assumes a: "0 < a" and aw: "0 < aw" "aw < 2 ^ 53" and ah: "0 < ah" "ah < 2 ^ 53"
    and over: "aw < width_for_height ah a"
  shows "height_for_width aw a \<le> ah"
proof -
  have faw: "float_round (of_int aw) = of_int aw" and fah: "float_round (of_int ah) = of_int ah"
    using aw ah by (simp_all add: float_round_of_int)
  define y where "y = (of_int ah :: rat) * a"
  have y: "0 \<le> y"
    using a ah by (simp add: y_def)
  have "of_int (width_for_height ah a) \<le> float_round y"
    unfolding width_for_height_def fah y_def [symmetric]
    using y by (intro int_of_float_bounds float_round_nonneg)
  moreover have "(of_int (aw + 1) :: rat) \<le> of_int (width_for_height ah a)"
    using over by (simp only: of_int_le_iff)
  ultimately have ge: "of_int (aw + 1) \<le> float_round y"
    by (rule order_trans [rotated])
  have "of_int aw \<le> y"
    by (rule rounded_exceeds [OF y _ _ ge]) (use aw in simp_all)
  then have "of_int aw / a \<le> of_int ah"
    using a by (simp add: y_def pos_divide_le_eq)
  then have "float_round (of_int aw / a) \<le> of_int ah"
    using ah by (intro float_round_le_int) simp_all
  then show ?thesis
    unfolding height_for_width_def faw by (rule int_of_float_le)
qed

text \<open>
  The truncated value against the exact one: the two roundings of the float
  computation move the value by a relative error of at most \<open>3 / 2 ^ 53\<close>, and the
  truncation by less than 1.
\<close>

lemma truncation_error:
  assumes e: "0 \<le> e" and lo: "e * (1 - 3 / 2 ^ 53) \<le> y" and hi: "y \<le> e * (1 + 3 / 2 ^ 53)"
    and y: "0 \<le> y" and t: "int_of_float y \<le> b" and b: "b < 2 ^ 31"
  shows "\<bar>of_int (int_of_float y) - e\<bar> < 1 + 1 / 2 ^ 20"
proof -
  define T where "T = (of_int (int_of_float y) :: rat)"
  have "T \<le> of_int b"
    unfolding T_def using t by (simp only: of_int_le_iff)
  moreover have "(of_int b :: rat) \<le> of_int (2 ^ 31 - 1)"
    using b by (simp only: of_int_le_iff)
  ultimately have tb: "T \<le> 2 ^ 31 - 1"
    by simp
  have ty: "T \<le> y" "y < T + 1"
    unfolding T_def using int_of_float_bounds [OF y] by simp_all
  have "T - e < 1 + 1 / 2 ^ 20"
    using lo hi tb ty e by simp
  moreover have "e - T < 1 + 1 / 2 ^ 20"
    using lo hi tb ty e by simp
  ultimately show ?thesis
    unfolding T_def [symmetric] by (simp only: abs_less_iff) simp
qed

lemma scaled_width_error:
  assumes r: "0 < r" and p: "0 < p" "p < 2 ^ 53"
  shows "of_int p * r * (1 - 3 / 2 ^ 53) \<le> float_round (float_round (of_int p) * float_round r)"
    and "float_round (float_round (of_int p) * float_round r) \<le> of_int p * r * (1 + 3 / 2 ^ 53)"
proof -
  define a where "a = float_round r"
  define z where "z = of_int p * a"
  define e where "e = of_int p * r"
  have fp: "float_round (of_int p) = of_int p"
    using p by (simp add: float_round_of_int)
  have a: "0 \<le> a" "r * (1 - 1 / 2 ^ 53) \<le> a" "a \<le> r * (1 + 1 / 2 ^ 53)"
    unfolding a_def using r float_round_relative [of r] by (simp_all add: float_round_nonneg)
  have z: "0 \<le> z"
    using a(1) p(1) by (simp add: z_def)
  have e: "0 \<le> e"
    using r p(1) by (simp add: e_def)
  have "of_int p * (r * (1 - 1 / 2 ^ 53)) \<le> of_int p * a"
    using a(2) p(1) by (intro mult_left_mono) simp_all
  then have zlo: "e * (1 - 1 / 2 ^ 53) \<le> z"
    by (simp add: z_def e_def mult.assoc)
  have "of_int p * a \<le> of_int p * (r * (1 + 1 / 2 ^ 53))"
    using a(3) p(1) by (intro mult_left_mono) simp_all
  then have zhi: "z \<le> e * (1 + 1 / 2 ^ 53)"
    by (simp add: z_def e_def mult.assoc)
  note f = float_round_relative [OF z]
  show "of_int p * r * (1 - 3 / 2 ^ 53) \<le> float_round (float_round (of_int p) * float_round r)"
    unfolding fp a_def [symmetric] z_def [symmetric] e_def [symmetric]
    using f zlo zhi e by simp
  show "float_round (float_round (of_int p) * float_round r) \<le> of_int p * r * (1 + 3 / 2 ^ 53)"
    unfolding fp a_def [symmetric] z_def [symmetric] e_def [symmetric]
    using f zlo zhi e by simp
qed

lemma scaled_height_error:
  assumes r: "0 < r" and p: "0 < p" "p < 2 ^ 53"
  shows "of_int p / r * (1 - 3 / 2 ^ 53) \<le> float_round (float_round (of_int p) / float_round r)"
    and "float_round (float_round (of_int p) / float_round r) \<le> of_int p / r * (1 + 3 / 2 ^ 53)"
proof -
  define a where "a = float_round r"
  define z where "z = of_int p / a"
  define e where "e = of_int p / r"
  have fp: "float_round (of_int p) = of_int p"
    using p by (simp add: float_round_of_int)
  have a: "0 < a" "r * (1 - 1 / 2 ^ 53) \<le> a" "a \<le> r * (1 + 1 / 2 ^ 53)"
    unfolding a_def using r float_round_relative [of r] by (simp_all add: float_round_pos)
  have z: "0 \<le> z"
    using a(1) p(1) by (simp add: z_def)
  have e: "0 \<le> e"
    using r p(1) by (simp add: e_def)
  have za: "z * a = e * r"
    using a(1) r by (simp add: z_def e_def)
  have "(z * (1 - 1 / 2 ^ 53)) * r = z * (r * (1 - 1 / 2 ^ 53))"
    by (simp only: mult_ac)
  also have "\<dots> \<le> z * a"
    using a(2) z by (intro mult_left_mono) simp_all
  also have "\<dots> = e * r"
    by (rule za)
  finally have zhi: "z * (1 - 1 / 2 ^ 53) \<le> e"
    using r by (simp only: mult_le_cancel_right_pos)
  have "e * r = z * a"
    by (rule za [symmetric])
  also have "\<dots> \<le> z * (r * (1 + 1 / 2 ^ 53))"
    using a(3) z by (intro mult_left_mono) simp_all
  also have "\<dots> = (z * (1 + 1 / 2 ^ 53)) * r"
    by (simp only: mult_ac)
  finally have zlo: "e \<le> z * (1 + 1 / 2 ^ 53)"
    using r by (simp only: mult_le_cancel_right_pos)
  note f = float_round_relative [OF z]
  show "of_int p / r * (1 - 3 / 2 ^ 53) \<le> float_round (float_round (of_int p) / float_round r)"
    unfolding fp a_def [symmetric] z_def [symmetric] e_def [symmetric]
    using f zlo zhi e by simp
  show "float_round (float_round (of_int p) / float_round r) \<le> of_int p / r * (1 + 3 / 2 ^ 53)"
    unfolding fp a_def [symmetric] z_def [symmetric] e_def [symmetric]
    using f zlo zhi e by simp
qed

lemma height_for_width_error:
  assumes "0 < w" and "0 < h" and "0 < aw" and "aw < 2 ^ 31"
    and "height_for_width aw (aspect_ratio w h) \<le> ah" and "ah < 2 ^ 31"
  shows "\<bar>of_int (height_for_width aw (aspect_ratio w h)) - of_int aw * of_int h / of_int w\<bar>
           < (1 + 1 / 2 ^ 20 :: rat)"
proof -
  define r where "r = (of_int w :: rat) / of_int h"
  define y where "y = float_round (float_round (of_int aw) / float_round r)"
  have r: "0 < r"
    using assms(1,2) by (simp add: r_def)
  have aw53: "aw < 2 ^ 53"
    using assms(4) by simp
  have e: "of_int aw / r = of_int aw * of_int h / of_int w"
    by (simp add: r_def)
  have y: "0 \<le> y"
    unfolding y_def using r assms(3)
    by (intro float_round_nonneg divide_nonneg_nonneg) (simp_all add: float_round_nonneg)
  have t: "height_for_width aw (aspect_ratio w h) = int_of_float y"
    by (simp add: height_for_width_def aspect_ratio_def y_def r_def)
  have "\<bar>of_int (int_of_float y) - of_int aw / r\<bar> < 1 + 1 / 2 ^ 20"
  proof (rule truncation_error)
    show "0 \<le> of_int aw / r"
      using r assms(3) by simp
    show "of_int aw / r * (1 - 3 / 2 ^ 53) \<le> y" and "y \<le> of_int aw / r * (1 + 3 / 2 ^ 53)"
      unfolding y_def using scaled_height_error [OF r assms(3) aw53] by simp_all
    show "0 \<le> y"
      by (rule y)
    show "int_of_float y \<le> ah"
      using assms(5) by (simp add: t)
    show "ah < 2 ^ 31"
      by (rule assms(6))
  qed
  then show ?thesis
    by (simp only: t e)
qed

lemma width_for_height_error:
  assumes "0 < w" and "0 < h" and "0 < ah" and "ah < 2 ^ 31"
    and "width_for_height ah (aspect_ratio w h) \<le> aw" and "aw < 2 ^ 31"
  shows "\<bar>of_int (width_for_height ah (aspect_ratio w h)) - of_int ah * of_int w / of_int h\<bar>
           < (1 + 1 / 2 ^ 20 :: rat)"
proof -
  define r where "r = (of_int w :: rat) / of_int h"
  define y where "y = float_round (float_round (of_int ah) * float_round r)"
  have r: "0 < r"
    using assms(1,2) by (simp add: r_def)
  have ah53: "ah < 2 ^ 53"
    using assms(4) by simp
  have e: "of_int ah * r = of_int ah * of_int w / of_int h"
    by (simp add: r_def)
  have y: "0 \<le> y"
    unfolding y_def using r assms(3)
    by (intro float_round_nonneg mult_nonneg_nonneg) (simp_all add: float_round_nonneg)
  have t: "width_for_height ah (aspect_ratio w h) = int_of_float y"
    by (simp add: width_for_height_def aspect_ratio_def y_def r_def)
  have "\<bar>of_int (int_of_float y) - of_int ah * r\<bar> < 1 + 1 / 2 ^ 20"
  proof (rule truncation_error)
    show "0 \<le> of_int ah * r"
      using r assms(3) by simp
    show "of_int ah * r * (1 - 3 / 2 ^ 53) \<le> y" and "y \<le> of_int ah * r * (1 + 3 / 2 ^ 53)"
      unfolding y_def using scaled_width_error [OF r assms(3) ah53] by simp_all
    show "0 \<le> y"
      by (rule y)
    show "int_of_float y \<le> aw"
      using assms(5) by (simp add: t)
    show "aw < 2 ^ 31"
      by (rule assms(6))
  qed
  then show ?thesis
    by (simp only: t e)
qed

lemma fitted_size_in_cell:
  assumes "0 < w" and "0 < h" and "0 < aw" and "aw < 2 ^ 31" and "0 < ah" and "ah < 2 ^ 31"
  shows "\<exists>nw nh. fitted_size aw ah (w, h) = Inr (nw, nh) \<and> nw \<le> aw \<and> nh \<le> ah \<and>
           ((nw = aw \<and>
               \<bar>of_int nh - of_int aw * of_int h / of_int w\<bar> < (1 + 1 / 2 ^ 20 :: rat)) \<or>
            (nh = ah \<and>
               \<bar>of_int nw - of_int ah * of_int w / of_int h\<bar> < (1 + 1 / 2 ^ 20 :: rat)))"
proof -
  define a where "a = aspect_ratio w h"
  define t1 where "t1 = height_for_width aw a"
  define t2 where "t2 = width_for_height ah a"
  have a: "0 < a"
    unfolding a_def using assms(1,2) by (rule aspect_ratio_pos)
  have aw53: "aw < 2 ^ 53" and ah53: "ah < 2 ^ 53"
    using assms(4,6) by simp_all
  have e1: "\<bar>of_int t1 - of_int aw * of_int h / of_int w\<bar> < (1 + 1 / 2 ^ 20 :: rat)"
    if "t1 \<le> ah"
    unfolding t1_def a_def using assms that
    by (intro height_for_width_error [where ah = ah]) (simp_all add: t1_def a_def)
  have e2: "\<bar>of_int t2 - of_int ah * of_int w / of_int h\<bar> < (1 + 1 / 2 ^ 20 :: rat)"
    if "t2 \<le> aw"
    unfolding t2_def a_def using assms that
    by (intro width_for_height_error [where aw = aw]) (simp_all add: t2_def a_def)
  have r1: "t2 \<le> aw" if "ah < t1"
    unfolding t2_def using a assms(3) aw53 assms(5) ah53 that [unfolded t1_def]
    by (rule refit_width)
  have r2: "t1 \<le> ah" if "aw < t2"
    unfolding t1_def using a assms(3) aw53 assms(5) ah53 that [unfolded t2_def]
    by (rule refit_height)
  have eq: "fitted_size aw ah (w, h) =
     Inr (if 1 < a then (if ah < t1 then (t2, ah) else (aw, t1))
          else (if aw < t2 then (aw, t1) else (t2, ah)))"
    unfolding a_def t1_def t2_def using assms(1,2) by (rule fitted_size_eq)
  show ?thesis
  proof (cases "1 < a")
    case True
    show ?thesis
    proof (cases "ah < t1")
      case over: True
      then have "fitted_size aw ah (w, h) = Inr (t2, ah)"
        using True by (simp add: eq)
      then show ?thesis
        using r1 [OF over] e2 by blast
    next
      case False
      then have le: "t1 \<le> ah"
        by simp
      have "fitted_size aw ah (w, h) = Inr (aw, t1)"
        using True False by (simp add: eq)
      then show ?thesis
        using le e1 by blast
    qed
  next
    case False
    show ?thesis
    proof (cases "aw < t2")
      case over: True
      then have "fitted_size aw ah (w, h) = Inr (aw, t1)"
        using False by (simp add: eq)
      then show ?thesis
        using r2 [OF over] e1 by blast
    next
      case nover: False
      then have le: "t2 \<le> aw"
        by simp
      have "fitted_size aw ah (w, h) = Inr (t2, ah)"
        using False nover by (simp add: eq)
      then show ?thesis
        using le e2 by blast
    qed
  qed
qed

lemma resize_size:
  "resize img (nw, nh) = Inr resized_img \<Longrightarrow> width resized_img = nw \<and> height resized_img = nh"
  by (auto simp: resize_def split: if_splits)

text \<open>
  Claim C5, as amended. For an image of positive width and height and a cell of
  positive available width and height, both below \<open>2 ^ 31\<close>, the fitted size is
  computed without an exception and fits the cell: \<open>new_width \<le> available_width\<close>
  and \<open>new_height \<le> available_height\<close>. One of its dimensions is the available
  one, and the other is within \<open>1 + 1 / 2 ^ 20\<close> pixels of the value that keeps the
  aspect ratio of the image exactly: the truncation of \<^verbatim>\<open>int\<close> costs less than one
  pixel, the floating-point roundings the rest. If \<^verbatim>\<open>resize\<close> returns an image, it
  has this size. The available sizes of the method are the floors of lines 227 and
  229 (\<open>available_width_floor\<close>, \<open>available_height_floor\<close>), with the row count
  of \<open>num_rows_ceiling\<close>.
\<close>

theorem fitted_size_fits:
  assumes "0 < width img" and "0 < height img"
    and "0 < aw" and "aw < 2 ^ 31" and "0 < ah" and "ah < 2 ^ 31"
  shows "\<exists>nw nh. fitted_size aw ah (width img, height img) = Inr (nw, nh) \<and>
           nw \<le> aw \<and> nh \<le> ah \<and>
           ((nw = aw \<and>
               \<bar>of_int nh - of_int aw * of_int (height img) / of_int (width img)\<bar>
                 < (1 + 1 / 2 ^ 20 :: rat)) \<or>
            (nh = ah \<and>
               \<bar>of_int nw - of_int ah * of_int (width img) / of_int (height img)\<bar>
                 < (1 + 1 / 2 ^ 20 :: rat))) \<and>
           (\<forall>resized_img. resize img (nw, nh) = Inr resized_img \<longrightarrow>
              width resized_img = nw \<and> height resized_img = nh)"
  using fitted_size_in_cell [OF assms] resize_size [of img] by blast

theorem fitted_size_fits_witness:
  "fitted_size 626 1060 (200, 100) = Inr (626, 313) \<and>
   resize (Decoded ''RGB'' 200 100 0) (626, 313) = Inr (Resized (Decoded ''RGB'' 200 100 0) 626 313) \<and>
   fitted_size 100 49 (1, 49) = Inr (0, 49) \<and>
   \<bar>of_int 0 - of_int 49 * of_int 1 / of_int 49\<bar> < (1 + 1 / 2 ^ 20 :: rat)"
proof -
  have a: "fitted_size 100 49 (1, 49) = Inr (0, 49)"
    by code_simp
  have b: "fitted_size 626 1060 (200, 100) = Inr (626, 313)"
    by code_simp
  have c: "resize (Decoded ''RGB'' 200 100 0) (626, 313) =
             Inr (Resized (Decoded ''RGB'' 200 100 0) 626 313)"
    by (simp add: resize_def)
  have "\<exists>nw nh. fitted_size 100 49 (width (Decoded ''L'' 1 49 0), height (Decoded ''L'' 1 49 0)) =
             Inr (nw, nh) \<and> nw \<le> 100 \<and> nh \<le> 49 \<and>
           ((nw = 100 \<and>
               \<bar>of_int nh - of_int 100 * of_int (height (Decoded ''L'' 1 49 0)) /
                  of_int (width (Decoded ''L'' 1 49 0))\<bar> < (1 + 1 / 2 ^ 20 :: rat)) \<or>
            (nh = 49 \<and>
               \<bar>of_int nw - of_int 49 * of_int (width (Decoded ''L'' 1 49 0)) /
                  of_int (height (Decoded ''L'' 1 49 0))\<bar> < (1 + 1 / 2 ^ 20 :: rat))) \<and>
           (\<forall>resized_img. resize (Decoded ''L'' 1 49 0) (nw, nh) = Inr resized_img \<longrightarrow>
              width resized_img = nw \<and> height resized_img = nh)"
    by (rule fitted_size_fits) simp_all
  then have "\<bar>of_int 0 - of_int 49 * of_int 1 / of_int 49\<bar> < (1 + 1 / 2 ^ 20 :: rat)"
    by (auto simp: a)
  then show ?thesis
    using a b c by simp
qed

text \<open>
  Without the bound on the sizes the claim fails: above \<open>2 ^ 53\<close> the conversion of
  the available size to a float rounds it up, and the fitted height exceeds the
  available height.
\<close>

theorem fitted_size_fits_counterexample:
  "fitted_size 9007199254740995 9007199254740995 (1, 1) =
     Inr (9007199254740995, 9007199254740996)"
  by code_simp

section \<open>A target too small for the grid\<close>





end
